theory Spec2Isabelle
  imports Main "HOL-Library.Word"
begin

unbundle bit_operations_syntax

section \<open>The PIC18 timer example (Examples/C18/PIC18Extd/src/main.c)\<close>

text \<open>
  The program has two routines that share one flag byte: the high-priority interrupt
  routine \<open>InterruptHandlerHigh\<close>, run on a TMR0 overflow, and the polling loop
  \<open>doloop\<close>, called once by \<open>main\<close>. Every special function register and every
  global of the C file is a field of one record, and every routine is a function from
  that record to the updated record. The helper routines \<open>getbuf\<close>, \<open>getbbuf\<close> and
  \<open>getstruct\<close> of lines 74 to 102 are never called and assign no global; they have
  no part in what follows.
\<close>

subsection \<open>Data model\<close>

type_synonym u8 = "8 word"

text \<open>\<open>enum TimerState { Running, Stopped }\<close> (lines 31 to 34).\<close>

datatype TimerState = Running | Stopped

text \<open>
  One entry for every kind of store the C code performs, named after the l-value on the
  left of the assignment. The field \<open>trace\<close> of the machine state collects them in
  program order; it is bookkeeping of the model, no routine reads it.
\<close>

datatype store =
    Wr_Flags_Byte u8
  | Wr_Flags_Timeout bool
  | Wr_INTCON u8
  | Wr_TMR0IF bool
  | Wr_GIEH bool
  | Wr_INTCON2 u8
  | Wr_IPEN bool
  | Wr_TMR0H u8
  | Wr_TMR0L u8
  | Wr_T0CON u8
  | Wr_TRISB u8
  | Wr_LATB0 bool
  | Wr_LATB7 bool
  | Wr_state TimerState
  | Wr_State TimerState
  | Wr_buffer nat u8

text \<open>
  The machine state. \<open>Flags\<close> is the union \<open>TimerFlags\<close> seen through its member
  \<open>Byte\<close>; \<open>buffer\<close> is \<open>char buffer[16]\<close>; \<open>State\<close> is the global of type
  \<open>enum TimerState\<close> and \<open>state\<close> the \<open>static\<close> local of \<open>doloop\<close>, which
  lives as long as the program. The other byte fields are the special function
  registers the file assigns.
\<close>

record mcu =
  INTCON :: u8
  INTCON2 :: u8
  RCON :: u8
  TMR0H :: u8
  TMR0L :: u8
  T0CON :: u8
  TRISB :: u8
  LATB :: u8
  Flags :: u8
  buffer :: "u8 list"
  State :: TimerState
  state :: TimerState
  trace :: "store list"

subsection \<open>Bit fields\<close>

text \<open>
  Modelled from the spec: the device header \<open>p18cxxx.h\<close>, which declares
  \<open>INTCONbits\<close>, \<open>RCONbits\<close> and \<open>LATBbits\<close>, is not part of the sources. The spec
  speaks of an overflow-pending indicator bit, of a global interrupt enable and of two
  digital output lines that are each settable and readable as a single bit,
  independently of one another. The positions below are those of the PIC18F1230 named in
  the file header: TMR0IF is bit 2 and GIEH bit 7 of INTCON, IPEN is bit 7 of RCON, LATB0
  and LATB7 are bits 0 and 7 of LATB. The bit field \<open>Timeout:1\<close>, the first member of
  the union's struct, is bit 0 of \<open>Flags.Byte\<close>.
\<close>

definition TMR0IF_bit :: nat where "TMR0IF_bit = 2"
definition GIEH_bit :: nat where "GIEH_bit = 7"
definition IPEN_bit :: nat where "IPEN_bit = 7"
definition LATB0_bit :: nat where "LATB0_bit = 0"
definition LATB7_bit :: nat where "LATB7_bit = 7"
definition Timeout_bit :: nat where "Timeout_bit = 0"

text \<open>Assigning a truth value to a one-bit field of a byte.\<close>

definition bf_write :: "nat \<Rightarrow> bool \<Rightarrow> u8 \<Rightarrow> u8" where
  "bf_write n b w = (if b then set_bit n w else unset_bit n w)"

definition TMR0IF :: "mcu \<Rightarrow> bool" where
  "TMR0IF s = bit (INTCON s) TMR0IF_bit"

definition LATB0 :: "mcu \<Rightarrow> bool" where
  "LATB0 s = bit (LATB s) LATB0_bit"

definition LATB7 :: "mcu \<Rightarrow> bool" where
  "LATB7 s = bit (LATB s) LATB7_bit"

text \<open>\<open>x.Bit.Timeout\<close> of a value \<open>x\<close> of the union type.\<close>

definition Timeout :: "u8 \<Rightarrow> bool" where
  "Timeout x = bit x Timeout_bit"

subsection \<open>Stores\<close>

text \<open>Each assignment of the file to a bit field or to a variable, with its trace entry.\<close>

definition set_TMR0IF :: "bool \<Rightarrow> mcu \<Rightarrow> mcu" where
  "set_TMR0IF b s =
     s\<lparr>INTCON := bf_write TMR0IF_bit b (INTCON s), trace := trace s @ [Wr_TMR0IF b]\<rparr>"

definition set_Timeout :: "bool \<Rightarrow> mcu \<Rightarrow> mcu" where
  "set_Timeout b s =
     s\<lparr>Flags := bf_write Timeout_bit b (Flags s), trace := trace s @ [Wr_Flags_Timeout b]\<rparr>"

definition set_LATB0 :: "bool \<Rightarrow> mcu \<Rightarrow> mcu" where
  "set_LATB0 b s =
     s\<lparr>LATB := bf_write LATB0_bit b (LATB s), trace := trace s @ [Wr_LATB0 b]\<rparr>"

definition set_LATB7 :: "bool \<Rightarrow> mcu \<Rightarrow> mcu" where
  "set_LATB7 b s =
     s\<lparr>LATB := bf_write LATB7_bit b (LATB s), trace := trace s @ [Wr_LATB7 b]\<rparr>"

definition set_state :: "TimerState \<Rightarrow> mcu \<Rightarrow> mcu" where
  "set_state v s = s\<lparr>state := v, trace := trace s @ [Wr_state v]\<rparr>"

definition set_State :: "TimerState \<Rightarrow> mcu \<Rightarrow> mcu" where
  "set_State v s = s\<lparr>State := v, trace := trace s @ [Wr_State v]\<rparr>"

definition set_buffer :: "nat \<Rightarrow> u8 \<Rightarrow> mcu \<Rightarrow> mcu" where
  "set_buffer i v s = s\<lparr>buffer := (buffer s)[i := v], trace := trace s @ [Wr_buffer i v]\<rparr>"

subsection \<open>The interrupt routine\<close>

text \<open>
  Lines 164 to 172:
  \<^verbatim>\<open>
  void InterruptHandlerHigh ()
  {
    if (INTCONbits.TMR0IF)
      {
        INTCONbits.TMR0IF = 0;
        Flags.Bit.Timeout = 1;
        LATBbits.LATB0 = !LATBbits.LATB0;
      }
  }
  \<close>
\<close>

definition InterruptHandlerHigh :: "mcu \<Rightarrow> mcu" where
  "InterruptHandlerHigh s =
     (if TMR0IF s then
        (let s1 = set_TMR0IF False s;
             s2 = set_Timeout True s1;
             s3 = set_LATB0 (\<not> LATB0 s2) s2
         in s3)
      else s)"

text \<open>
  Modelled from the spec: the timer hardware is not code. Its overflow sets the
  overflow-pending indicator TMR0IF ("hardware flag set when a free-running counter
  wraps past its maximum value"), and the routine above is then invoked ("invoked by
  hardware whenever the timer's overflow condition is asserted"). One timer-overflow
  event is the two together; the routine runs to its end before the interrupted code
  goes on.
\<close>

definition timer0_overflow :: "mcu \<Rightarrow> mcu" where
  "timer0_overflow s = s\<lparr>INTCON := set_bit TMR0IF_bit (INTCON s)\<rparr>"

definition overflow_event :: "mcu \<Rightarrow> mcu" where
  "overflow_event s = InterruptHandlerHigh (timer0_overflow s)"

subsection \<open>The C library\<close>

text \<open>
  The string literals of the file, as the bytes the compiler stores for them: the
  characters and the terminating NUL.
\<close>

definition lit_abc :: "u8 list" where
  "lit_abc = [0x61, 0x62, 0x63, 0]"

definition lit_def :: "u8 list" where
  "lit_def = [0x64, 0x65, 0x66, 0]"

text \<open>
  \<open>strcmp\<close> of the C library, on the bytes that follow each pointer: it walks both
  strings until they differ or until the NUL they share, and returns zero exactly when
  they are equal up to and including that NUL. Reading past the end of either object is
  \<open>None\<close>.
\<close>

fun strcmp :: "u8 list \<Rightarrow> u8 list \<Rightarrow> int option" where
  "strcmp (a # as) (b # bs) =
     (if a = b then (if a = 0 then Some 0 else strcmp as bs)
      else Some (if a < b then - 1 else 1))"
| "strcmp _ _ = None"

text \<open>
  \<open>strncpy (buffer + off, src, n)\<close> of the C library: exactly \<open>n\<close> bytes are
  stored, the characters of \<open>src\<close> first and, once its NUL has been copied, NUL bytes
  only. No terminator is added after the \<open>n\<close> bytes.
\<close>

fun strncpy :: "nat \<Rightarrow> u8 list \<Rightarrow> nat \<Rightarrow> mcu \<Rightarrow> mcu" where
  "strncpy off src 0 s = s"
| "strncpy off [] (Suc n) s = s"
| "strncpy off (c # cs) (Suc n) s =
     strncpy (Suc off) (if c = 0 then c # cs else cs) n (set_buffer off c s)"

subsection \<open>The polling loop\<close>

text \<open>Lines 88 to 91: \<open>getFlags\<close> returns the union \<open>Flags\<close> by value.\<close>

definition getFlags :: "mcu \<Rightarrow> u8" where
  "getFlags s = Flags s"

text \<open>
  Lines 109 to 125, the body of the \<open>while\<close> loop, run from its first statement to
  its last with no interrupt in between:
  \<^verbatim>\<open>
      flg = getFlags();
      if (flg.Bit.Timeout == 1)
      {
        state = Running;
        Flags.Bit.Timeout = 0;
        LATBbits.LATB7 = LATBbits.LATB0;
      }
      else
        state = Stopped;
      if (strcmp("abc", buffer) == 0)
      {
        (void)strncpy(buffer+3, "def", 3);
      }
      State = state;
  \<close>
\<close>

definition doloop_body :: "mcu \<Rightarrow> mcu" where
  "doloop_body s =
     (let flg = getFlags s;
          s1 = (if Timeout flg then
                  (let a = set_state Running s;
                       b = set_Timeout False a
                   in set_LATB7 (LATB0 b) b)
                else set_state Stopped s);
          s2 = (if strcmp lit_abc (buffer s1) = Some 0 then strncpy 3 lit_def 3 s1 else s1)
      in set_State (state s2) s2)"

text \<open>
  Lines 120 to 123 on their own, the second \<open>if\<close> of the body; the first \<open>if\<close> does
  not touch the buffer, so the body can be split at this point.
\<close>

definition rewrite_buffer :: "mcu \<Rightarrow> mcu" where
  "rewrite_buffer s = (if strcmp lit_abc (buffer s) = Some 0 then strncpy 3 lit_def 3 s else s)"

text \<open>
  \<open>void doloop(register char loop)\<close>: the body is repeated while \<open>loop\<close> is not
  zero. The result is \<open>None\<close> when the call does not return.
\<close>

partial_function (option) doloop :: "u8 \<Rightarrow> mcu \<Rightarrow> mcu option" where
  "doloop loop s = (if loop \<noteq> 0 then doloop loop (doloop_body s) else Some s)"

subsection \<open>The main routine\<close>

text \<open>Lines 133 to 141, the assignments of \<open>main\<close> before it calls \<open>doloop\<close>.\<close>

definition main_setup :: "mcu \<Rightarrow> mcu" where
  "main_setup s =
     (let s1 = s\<lparr>Flags := 0, trace := trace s @ [Wr_Flags_Byte 0]\<rparr>;
          s2 = s1\<lparr>INTCON := 0x20, trace := trace s1 @ [Wr_INTCON 0x20]\<rparr>;
          s3 = s2\<lparr>INTCON2 := 0x84, trace := trace s2 @ [Wr_INTCON2 0x84]\<rparr>;
          s4 = s3\<lparr>RCON := bf_write IPEN_bit True (RCON s3), trace := trace s3 @ [Wr_IPEN True]\<rparr>;
          s5 = s4\<lparr>TMR0H := 0, trace := trace s4 @ [Wr_TMR0H 0]\<rparr>;
          s6 = s5\<lparr>TMR0L := 0, trace := trace s5 @ [Wr_TMR0L 0]\<rparr>;
          s7 = s6\<lparr>T0CON := 0x82, trace := trace s6 @ [Wr_T0CON 0x82]\<rparr>;
          s8 = s7\<lparr>INTCON := bf_write GIEH_bit True (INTCON s7), trace := trace s7 @ [Wr_GIEH True]\<rparr>;
          s9 = s8\<lparr>TRISB := 0, trace := trace s8 @ [Wr_TRISB 0]\<rparr>
      in s9)"

text \<open>Lines 131 to 145: the set-up, then \<open>doloop(1)\<close>.\<close>

definition main :: "mcu \<Rightarrow> mcu option" where
  "main s = doloop 1 (main_setup s)"

subsection \<open>The loop, statement by statement, and the interrupt\<close>

text \<open>
  The interrupt can arrive between any two statements of the loop. To follow such runs,
  the loop is also given as a machine whose program counter names the line of the next
  statement of \<open>doloop\<close>: 109 is the test of the \<open>while\<close>, 126 the end of the
  function. A configuration holds the program counter, the two register variables of
  \<open>doloop\<close> and the machine state.
\<close>

datatype label = L109 | L111 | L112 | L114 | L115 | L116 | L119 | L120 | L122 | L124 | L126

record cfg =
  pc :: label
  loop :: u8
  flg :: u8
  mach :: mcu

definition lstep :: "cfg \<Rightarrow> cfg" where
  "lstep c =
     (case pc c of
        L109 \<Rightarrow> if loop c \<noteq> 0 then c\<lparr>pc := L111\<rparr> else c\<lparr>pc := L126\<rparr>
      | L111 \<Rightarrow> c\<lparr>pc := L112, flg := getFlags (mach c)\<rparr>
      | L112 \<Rightarrow> if Timeout (flg c) then c\<lparr>pc := L114\<rparr> else c\<lparr>pc := L119\<rparr>
      | L114 \<Rightarrow> c\<lparr>pc := L115, mach := set_state Running (mach c)\<rparr>
      | L115 \<Rightarrow> c\<lparr>pc := L116, mach := set_Timeout False (mach c)\<rparr>
      | L116 \<Rightarrow> c\<lparr>pc := L120, mach := set_LATB7 (LATB0 (mach c)) (mach c)\<rparr>
      | L119 \<Rightarrow> c\<lparr>pc := L120, mach := set_state Stopped (mach c)\<rparr>
      | L120 \<Rightarrow> if strcmp lit_abc (buffer (mach c)) = Some 0
                then c\<lparr>pc := L122\<rparr> else c\<lparr>pc := L124\<rparr>
      | L122 \<Rightarrow> c\<lparr>pc := L124, mach := strncpy 3 lit_def 3 (mach c)\<rparr>
      | L124 \<Rightarrow> c\<lparr>pc := L109, mach := set_State (state (mach c)) (mach c)\<rparr>
      | L126 \<Rightarrow> c)"

text \<open>
  A run is a list of events: \<open>Step\<close> lets the loop execute its next statement,
  \<open>Overflow\<close> is one timer-overflow event, served by the interrupt routine before the
  loop goes on.
\<close>

datatype event = Step | Overflow

definition step :: "event \<Rightarrow> cfg \<Rightarrow> cfg" where
  "step e c = (case e of Step \<Rightarrow> lstep c | Overflow \<Rightarrow> c\<lparr>mach := overflow_event (mach c)\<rparr>)"

fun exec :: "event list \<Rightarrow> cfg \<Rightarrow> cfg" where
  "exec [] c = c"
| "exec (e # es) c = exec es (step e c)"

text \<open>The number of timer-overflow events of a run.\<close>

definition overflows :: "event list \<Rightarrow> nat" where
  "overflows es = length (filter (\<lambda>e. e = Overflow) es)"

text \<open>The number of statements the loop executes in a run.\<close>

definition steps :: "event list \<Rightarrow> nat" where
  "steps es = length (filter (\<lambda>e. e = Step) es)"

text \<open>
  The loop observes the Timeout flag set when the test of line 112 succeeds.
  \<open>observed es c\<close> counts how often that happens in the run \<open>es\<close> from \<open>c\<close>.
\<close>

definition observes :: "event \<Rightarrow> cfg \<Rightarrow> bool" where
  "observes e c = (e = Step \<and> pc c = L112 \<and> Timeout (flg c))"

fun observed :: "event list \<Rightarrow> cfg \<Rightarrow> nat" where
  "observed [] c = 0"
| "observed (e # es) c = (if observes e c then 1 else 0) + observed es (step e c)"

text \<open>
  A signal is pending when the flag is set in memory and the loop has not yet tested a
  copy of it, or when the loop holds a set copy it is about to test. Between a
  successful test and the clear of line 115 nothing is pending: the flag in memory is
  about to be cleared whatever it holds.
\<close>

definition pending :: "cfg \<Rightarrow> bool" where
  "pending c =
     (if pc c = L112 then Timeout (flg c) \<or> Timeout (Flags (mach c))
      else if pc c = L114 \<or> pc c = L115 then False
      else Timeout (Flags (mach c)))"

text \<open>
  An overflow event is effective when it raises a new signal: none is pending when it
  arrives, and the loop is not between its successful test and its clear.
  \<open>effective es c\<close> counts the effective overflow events of the run.
\<close>

definition raises :: "event \<Rightarrow> cfg \<Rightarrow> bool" where
  "raises e c = (e = Overflow \<and> \<not> pending c \<and> pc c \<noteq> L114 \<and> pc c \<noteq> L115)"

fun effective :: "event list \<Rightarrow> cfg \<Rightarrow> nat" where
  "effective [] c = 0"
| "effective (e # es) c = (if raises e c then 1 else 0) + effective es (step e c)"

text \<open>The loop is running: it has not left the function and its argument is not zero.\<close>

definition running :: "cfg \<Rightarrow> bool" where
  "running c = (loop c \<noteq> 0 \<and> pc c \<noteq> L126)"

text \<open>
  An upper bound on the number of statements the loop executes until the test of line
  112 observes a pending signal.
\<close>

definition dist :: "cfg \<Rightarrow> nat" where
  "dist c =
     (case pc c of
        L112 \<Rightarrow> if Timeout (flg c) then 1 else 8
      | L111 \<Rightarrow> 2 | L109 \<Rightarrow> 3 | L124 \<Rightarrow> 4 | L122 \<Rightarrow> 5 | L120 \<Rightarrow> 6
      | L119 \<Rightarrow> 7 | L116 \<Rightarrow> 7 | _ \<Rightarrow> 0)"

text \<open>The stores an event adds to the trace.\<close>

definition new_stores :: "event \<Rightarrow> cfg \<Rightarrow> store list" where
  "new_stores e c = drop (length (trace (mach c))) (trace (mach (step e c)))"

text \<open>The number of times a run executes the \<open>strncpy\<close> of line 122.\<close>

fun strncpy_runs :: "event list \<Rightarrow> cfg \<Rightarrow> nat" where
  "strncpy_runs [] c = 0"
| "strncpy_runs (e # es) c =
     (if e = Step \<and> pc c = L122 then 1 else 0) + strncpy_runs es (step e c)"

text \<open>
  A start state for the examples: every register and every byte of the buffer zero, as
  after a reset that clears the memory, and the empty trace.
\<close>

definition reset_state :: mcu where
  "reset_state =
     \<lparr>INTCON = 0, INTCON2 = 0, RCON = 0, TMR0H = 0, TMR0L = 0, T0CON = 0, TRISB = 0,
      LATB = 0, Flags = 0, buffer = replicate 16 0, State = Running, state = Running,
      trace = []\<rparr>"

text \<open>
  The loop as \<open>main\<close> starts it: \<open>doloop(1)\<close> after the set-up. The register
  variable \<open>flg\<close> is assigned at line 111 before it is first read, so the value it
  starts with does not matter.
\<close>

definition start_cfg :: "mcu \<Rightarrow> cfg" where
  "start_cfg s = \<lparr>pc = L109, loop = 1, flg = 0, mach = main_setup s\<rparr>"

text \<open>
  A run in which the second overflow event arrives after the loop has read the flag set
  by the first one and before it clears it; two full iterations of the loop follow the
  first event.
\<close>

definition lost_run :: "event list" where
  "lost_run =
     [Step, Overflow, Step, Overflow, Step, Step, Step, Step, Step, Step,
      Step, Step, Step, Step, Step, Step]"






section \<open>Properties\<close>

subsection \<open>Bit fields and stores\<close>

lemmas bitpos =
  TMR0IF_bit_def GIEH_bit_def IPEN_bit_def LATB0_bit_def LATB7_bit_def Timeout_bit_def

lemmas stores =
  set_TMR0IF_def set_Timeout_def set_LATB0_def set_LATB7_def set_state_def set_State_def
  set_buffer_def

lemma bit_bf_write:
  "n < 8 \<Longrightarrow> bit (bf_write n b w) m = (if m = n then b else bit w m)"
  by (auto simp: bf_write_def bit_set_bit_iff bit_unset_bit_iff)

lemma replicate_num: "replicate (numeral k) x = x # replicate (pred_numeral k) x"
  by (simp add: numeral_eq_Suc)

lemma unset_set_bit: "unset_bit n (set_bit n (w::u8)) = unset_bit n w"
  by (rule bit_eqI) (auto simp: bit_set_bit_iff bit_unset_bit_iff)

subsection \<open>The interrupt routine\<close>

lemma handler_fires:
  "TMR0IF s \<Longrightarrow> InterruptHandlerHigh s =
     s\<lparr>INTCON := unset_bit TMR0IF_bit (INTCON s),
       Flags := set_bit Timeout_bit (Flags s),
       LATB := flip_bit LATB0_bit (LATB s),
       trace := trace s @ [Wr_TMR0IF False, Wr_Flags_Timeout True, Wr_LATB0 (\<not> LATB0 s)]\<rparr>"
  by (simp add: InterruptHandlerHigh_def Let_def stores bf_write_def LATB0_def flip_bit_eq_if)

lemma overflow_event_eq:
  "overflow_event s =
     s\<lparr>INTCON := unset_bit TMR0IF_bit (INTCON s),
       Flags := set_bit Timeout_bit (Flags s),
       LATB := flip_bit LATB0_bit (LATB s),
       trace := trace s @ [Wr_TMR0IF False, Wr_Flags_Timeout True, Wr_LATB0 (\<not> LATB0 s)]\<rparr>"
proof -
  have "TMR0IF (timer0_overflow s)"
    by (simp add: TMR0IF_def timer0_overflow_def bit_set_bit_iff bitpos)
  then have "overflow_event s =
     (timer0_overflow s)\<lparr>INTCON := unset_bit TMR0IF_bit (INTCON (timer0_overflow s)),
       Flags := set_bit Timeout_bit (Flags (timer0_overflow s)),
       LATB := flip_bit LATB0_bit (LATB (timer0_overflow s)),
       trace := trace (timer0_overflow s)
         @ [Wr_TMR0IF False, Wr_Flags_Timeout True, Wr_LATB0 (\<not> LATB0 (timer0_overflow s))]\<rparr>"
    by (simp only: overflow_event_def handler_fires)
  then show ?thesis
    by (simp add: timer0_overflow_def LATB0_def unset_set_bit)
qed

lemma LATB0_overflow_event: "LATB0 (overflow_event s) = (\<not> LATB0 s)"
  by (simp add: overflow_event_eq LATB0_def bit_flip_bit_iff bitpos)

lemma Timeout_overflow_event: "Timeout (Flags (overflow_event s))"
  by (simp add: overflow_event_eq Timeout_def bit_set_bit_iff bitpos)

lemma buffer_overflow_event: "buffer (overflow_event s) = buffer s"
  by (simp add: overflow_event_eq)

text \<open>
  Claim C2. Whenever \<open>InterruptHandlerHigh\<close> is entered with TMR0IF set, it performs
  exactly three stores, in this order: it clears TMR0IF, sets the Timeout flag and
  writes to LATB0 the negation of what LATB0 held. Afterwards TMR0IF is clear, the flag
  is set and LATB0 is inverted; every other bit of the three bytes and every other
  field of the machine state is as before.
\<close>

theorem handler_contract:
  assumes "TMR0IF s"
  shows "trace (InterruptHandlerHigh s) =
           trace s @ [Wr_TMR0IF False, Wr_Flags_Timeout True, Wr_LATB0 (\<not> LATB0 s)]
       \<and> \<not> TMR0IF (InterruptHandlerHigh s)
       \<and> Timeout (Flags (InterruptHandlerHigh s))
       \<and> LATB0 (InterruptHandlerHigh s) = (\<not> LATB0 s)
       \<and> (\<forall>n. n \<noteq> TMR0IF_bit \<longrightarrow> bit (INTCON (InterruptHandlerHigh s)) n = bit (INTCON s) n)
       \<and> (\<forall>n. n \<noteq> Timeout_bit \<longrightarrow> bit (Flags (InterruptHandlerHigh s)) n = bit (Flags s) n)
       \<and> (\<forall>n. n \<noteq> LATB0_bit \<longrightarrow> bit (LATB (InterruptHandlerHigh s)) n = bit (LATB s) n)
       \<and> (InterruptHandlerHigh s)\<lparr>INTCON := INTCON s, Flags := Flags s, LATB := LATB s,
            trace := trace s\<rparr> = s"
  using assms
  by (auto simp add: handler_fires TMR0IF_def Timeout_def LATB0_def bit_set_bit_iff
      bit_unset_bit_iff bit_flip_bit_iff bitpos dest: bit_imp_possible_bit)

theorem handler_contract_witness:
  "TMR0IF (timer0_overflow reset_state)
   \<and> trace (InterruptHandlerHigh (timer0_overflow reset_state)) =
       [Wr_TMR0IF False, Wr_Flags_Timeout True, Wr_LATB0 True]
   \<and> \<not> TMR0IF (InterruptHandlerHigh (timer0_overflow reset_state))
   \<and> Timeout (Flags (InterruptHandlerHigh (timer0_overflow reset_state)))
   \<and> LATB0 (InterruptHandlerHigh (timer0_overflow reset_state))"
proof -
  have h: "TMR0IF (timer0_overflow reset_state)"
    by (simp add: TMR0IF_def timer0_overflow_def bit_set_bit_iff bitpos)
  have l: "\<not> LATB0 (timer0_overflow reset_state)"
    by (simp add: LATB0_def timer0_overflow_def reset_state_def)
  have t: "trace (timer0_overflow reset_state) = []"
    by (simp add: timer0_overflow_def reset_state_def)
  show ?thesis
    using handler_contract [OF h] h l t by simp
qed

text \<open>
  Claim C4. After \<open>N\<close> consecutive timer-overflow events, each a run of the interrupt
  routine that finds TMR0IF set, LATB0 is its initial value XORed with \<open>N mod 2\<close>.
\<close>

theorem toggle: "LATB0 ((overflow_event ^^ N) s) = (LATB0 s \<noteq> (N mod 2 = 1))"
proof (induction N)
  case 0
  show ?case by simp
next
  case (Suc N)
  have "LATB0 ((overflow_event ^^ Suc N) s) = (\<not> LATB0 ((overflow_event ^^ N) s))"
    by (simp add: LATB0_overflow_event)
  also have "\<dots> = (LATB0 s \<noteq> (Suc N mod 2 = 1))"
    using Suc.IH by (simp add: mod_Suc)
  finally show ?case .
qed

theorem toggle_witness:
  "LATB0 ((overflow_event ^^ 3) reset_state) \<and> \<not> LATB0 ((overflow_event ^^ 4) reset_state)"
proof -
  have l: "\<not> LATB0 reset_state"
    by (simp add: LATB0_def reset_state_def)
  show ?thesis
    using toggle [of 3 reset_state] toggle [of 4 reset_state] l by simp
qed

subsection \<open>One iteration of the loop\<close>

lemma strncpy_numeral:
  "strncpy off (c # cs) (numeral k) s =
     strncpy (Suc off) (if c = 0 then c # cs else cs) (pred_numeral k) (set_buffer off c s)"
  by (simp add: numeral_eq_Suc)

lemma strncpy_1: "strncpy off (c # cs) 1 s = set_buffer off c s"
  using strncpy.simps(3) [of off c cs 0 s] by simp

lemma strncpy_def_3:
  "strncpy 3 lit_def 3 s =
     s\<lparr>buffer := (buffer s)[3 := 0x64, 4 := 0x65, 5 := 0x66],
       trace := trace s @ [Wr_buffer 3 0x64, Wr_buffer 4 0x65, Wr_buffer 5 0x66]\<rparr>"
  by (simp add: lit_def_def strncpy_numeral strncpy_1 set_buffer_def)

lemma rewrite_buffer_fields:
  "LATB (rewrite_buffer s) = LATB s" "Flags (rewrite_buffer s) = Flags s"
  "INTCON (rewrite_buffer s) = INTCON s" "state (rewrite_buffer s) = state s"
  "State (rewrite_buffer s) = State s"
  by (simp_all add: rewrite_buffer_def strncpy_def_3)

lemma buffer_rewrite_buffer:
  "buffer (rewrite_buffer s) =
     (if strcmp lit_abc (buffer s) = Some 0 then (buffer s)[3 := 0x64, 4 := 0x65, 5 := 0x66]
      else buffer s)"
  by (simp add: rewrite_buffer_def strncpy_def_3)

lemma body_set:
  "Timeout (Flags s) \<Longrightarrow> doloop_body s =
     set_State Running
       (rewrite_buffer (set_LATB7 (LATB0 s) (set_Timeout False (set_state Running s))))"
  by (simp add: doloop_body_def getFlags_def Let_def rewrite_buffer_def stores LATB0_def
      strncpy_def_3)

lemma body_clear:
  "\<not> Timeout (Flags s) \<Longrightarrow>
     doloop_body s = set_State Stopped (rewrite_buffer (set_state Stopped s))"
  by (simp add: doloop_body_def getFlags_def Let_def rewrite_buffer_def stores strncpy_def_3)

lemma body_observes:
  "Timeout (Flags s) \<Longrightarrow>
     \<not> Timeout (Flags (doloop_body s)) \<and> LATB7 (doloop_body s) = LATB0 s"
  by (simp add: body_set set_State_def rewrite_buffer_fields stores Timeout_def LATB7_def
      LATB0_def bit_bf_write bitpos)

lemma LATB0_doloop_body: "LATB0 (doloop_body s) = LATB0 s"
  by (cases "Timeout (Flags s)")
     (simp_all add: body_set body_clear LATB0_def set_State_def rewrite_buffer_fields stores
       bit_bf_write bitpos)

lemma LATB0_lstep: "LATB0 (mach (lstep c)) = LATB0 (mach c)"
  by (cases "pc c")
     (simp_all add: lstep_def LATB0_def stores strncpy_def_3 bit_bf_write bitpos)

lemma exec_append: "exec (es @ fs) c = exec fs (exec es c)"
  by (induction es arbitrary: c) simp_all

lemma LATB0_steps: "LATB0 (mach (exec (replicate k Step) c)) = LATB0 (mach c)"
  by (induction k arbitrary: c) (simp_all add: step_def LATB0_lstep)

text \<open>
  Claim C6. An iteration of the loop that finds the Timeout flag clear changes neither
  LATB, which holds both LEDs, nor the flag byte. Its only stores are the two to the
  state variables and, when the buffer holds "abc", the three bytes of line 122.
\<close>

theorem idle:
  assumes "\<not> Timeout (getFlags s)"
  shows "LATB (doloop_body s) = LATB s \<and> Flags (doloop_body s) = Flags s
       \<and> LATB7 (doloop_body s) = LATB7 s \<and> LATB0 (doloop_body s) = LATB0 s
       \<and> trace (doloop_body s) =
           trace s @ [Wr_state Stopped]
             @ (if strcmp lit_abc (buffer s) = Some 0
                then [Wr_buffer 3 0x64, Wr_buffer 4 0x65, Wr_buffer 5 0x66] else [])
             @ [Wr_State Stopped]"
  using assms
  by (simp add: getFlags_def body_clear set_State_def rewrite_buffer_fields stores
      rewrite_buffer_def strncpy_def_3 LATB7_def LATB0_def)

theorem idle_witness:
  "\<not> Timeout (getFlags reset_state)
   \<and> LATB (doloop_body reset_state) = 0 \<and> Flags (doloop_body reset_state) = 0
   \<and> trace (doloop_body reset_state) = [Wr_state Stopped, Wr_State Stopped]"
proof -
  have h: "\<not> Timeout (getFlags reset_state)"
    by (simp add: getFlags_def Timeout_def reset_state_def)
  have b: "strcmp lit_abc (buffer reset_state) \<noteq> Some 0"
    by (simp add: lit_abc_def reset_state_def replicate_num)
  have f: "LATB reset_state = 0" "Flags reset_state = 0" "trace reset_state = []"
    by (simp_all add: reset_state_def)
  show ?thesis
    using idle [OF h] h b f by simp
qed

text \<open>
  Claim C5. When two overflow events have fired before an iteration of the loop, LATB0
  has been toggled twice and is back at the value it had before them. The iteration
  that follows finds the flag set, clears it and copies that value of LATB0 to LATB7.
  No statement of the loop writes LATB0: in every run, however many statements the loop
  executes after an overflow event, LATB0 holds what that event's run of the interrupt
  routine left there.
\<close>

theorem handler_outruns_loop:
  "LATB0 (overflow_event (overflow_event s)) = LATB0 s
   \<and> Timeout (getFlags (overflow_event (overflow_event s)))
   \<and> \<not> Timeout (Flags (doloop_body (overflow_event (overflow_event s))))
   \<and> LATB7 (doloop_body (overflow_event (overflow_event s))) =
       LATB0 (overflow_event (overflow_event s))
   \<and> LATB0 (doloop_body (overflow_event (overflow_event s))) =
       LATB0 (overflow_event (overflow_event s))
   \<and> LATB0 (mach (exec (es @ Overflow # replicate k Step) c)) =
       LATB0 (mach (exec (es @ [Overflow]) c))"
proof -
  have obs: "Timeout (Flags (overflow_event (overflow_event s)))"
    by (rule Timeout_overflow_event)
  show ?thesis
    using body_observes [OF obs] obs
    by (simp add: getFlags_def LATB0_overflow_event LATB0_doloop_body LATB0_steps exec_append)
qed

theorem handler_outruns_loop_witness:
  "\<not> LATB0 (overflow_event (overflow_event reset_state))
   \<and> Timeout (getFlags (overflow_event (overflow_event reset_state)))
   \<and> \<not> Timeout (Flags (doloop_body (overflow_event (overflow_event reset_state))))
   \<and> \<not> LATB7 (doloop_body (overflow_event (overflow_event reset_state)))
   \<and> LATB0 (mach (exec ([Step] @ Overflow # replicate 6 Step) (start_cfg reset_state)))"
proof -
  have l: "\<not> LATB0 reset_state"
    by (simp add: LATB0_def reset_state_def)
  have m: "LATB0 (mach (exec ([Step] @ [Overflow]) (start_cfg reset_state)))"
    by code_simp
  show ?thesis
    using handler_outruns_loop [of reset_state "[Step]" 6 "start_cfg reset_state"] l m by simp
qed

subsection \<open>The state variables\<close>

lemma State_doloop_body:
  "State (doloop_body s) = (if Timeout (getFlags s) then Running else Stopped)"
  by (simp add: getFlags_def body_set body_clear set_State_def)

lemma doloop_body_ignores_State: "doloop_body (s\<lparr>State := v\<rparr>) = doloop_body s"
  by (simp add: doloop_body_def getFlags_def Let_def stores LATB0_def strncpy_def_3)

lemma handler_ignores_State:
  "InterruptHandlerHigh (s\<lparr>State := v\<rparr>) = (InterruptHandlerHigh s)\<lparr>State := v\<rparr>"
  by (simp add: InterruptHandlerHigh_def Let_def stores LATB0_def TMR0IF_def)

lemma main_setup_ignores_State: "main_setup (s\<lparr>State := v\<rparr>) = (main_setup s)\<lparr>State := v\<rparr>"
  by (simp add: main_setup_def Let_def)

lemma lstep_ignores_State:
  "lstep (c\<lparr>mach := (mach c)\<lparr>State := v\<rparr>\<rparr>) =
     (lstep c)\<lparr>mach := (mach (lstep c))\<lparr>State := (if pc c = L124 then state (mach c) else v)\<rparr>\<rparr>"
  by (cases "pc c") (simp_all add: lstep_def getFlags_def stores LATB0_def strncpy_def_3)

lemma step_ignores_State:
  "\<exists>v'. step e (c\<lparr>mach := (mach c)\<lparr>State := v\<rparr>\<rparr>) = (step e c)\<lparr>mach := (mach (step e c))\<lparr>State := v'\<rparr>\<rparr>"
proof (cases e)
  case Step
  then show ?thesis
    by (simp only: step_def event.case lstep_ignores_State) blast
next
  case Overflow
  then show ?thesis
    by (intro exI [of _ v]) (simp add: step_def overflow_event_eq LATB0_def)
qed

lemma exec_ignores_State:
  "\<exists>v'. exec es (c\<lparr>mach := (mach c)\<lparr>State := v\<rparr>\<rparr>) = (exec es c)\<lparr>mach := (mach (exec es c))\<lparr>State := v'\<rparr>\<rparr>"
proof (induction es arbitrary: c v)
  case Nil
  show ?case by auto
next
  case (Cons e es)
  obtain w where w: "step e (c\<lparr>mach := (mach c)\<lparr>State := v\<rparr>\<rparr>) =
      (step e c)\<lparr>mach := (mach (step e c))\<lparr>State := w\<rparr>\<rparr>"
    using step_ignores_State by blast
  show ?case
    using Cons.IH [where c = "step e c" and v = w] by (simp add: w)
qed

text \<open>
  Claim C9. An iteration of the loop ends with \<open>State\<close> equal to \<open>Running\<close> when it
  found the Timeout flag set and to \<open>Stopped\<close> otherwise. Nothing reads \<open>State\<close>:
  the loop body, the interrupt routine and the set-up of \<open>main\<close> do the same from two
  states that differ in \<open>State\<close> only, and two runs of the interleaved machine from
  such states agree on everything but \<open>State\<close>.
\<close>

theorem State_is_dead:
  "State (doloop_body s) = (if Timeout (getFlags s) then Running else Stopped)
   \<and> doloop_body (s\<lparr>State := v\<rparr>) = doloop_body s
   \<and> InterruptHandlerHigh (s\<lparr>State := v\<rparr>) = (InterruptHandlerHigh s)\<lparr>State := v\<rparr>
   \<and> main_setup (s\<lparr>State := v\<rparr>) = (main_setup s)\<lparr>State := v\<rparr>
   \<and> (\<exists>v'. exec es (c\<lparr>mach := (mach c)\<lparr>State := v\<rparr>\<rparr>) =
         (exec es c)\<lparr>mach := (mach (exec es c))\<lparr>State := v'\<rparr>\<rparr>)"
  using State_doloop_body doloop_body_ignores_State handler_ignores_State
    main_setup_ignores_State exec_ignores_State
  by (intro conjI)

theorem State_is_dead_witness:
  "State (doloop_body reset_state) = Stopped
   \<and> State (doloop_body (overflow_event reset_state)) = Running
   \<and> doloop_body (reset_state\<lparr>State := Stopped\<rparr>) = doloop_body reset_state"
proof -
  have h: "\<not> Timeout (getFlags reset_state)"
    by (simp add: getFlags_def Timeout_def reset_state_def)
  have g: "Timeout (getFlags (overflow_event reset_state))"
    by (simp add: getFlags_def Timeout_overflow_event)
  show ?thesis
    using State_is_dead [of reset_state Stopped "[]" "start_cfg reset_state"]
      State_is_dead [of "overflow_event reset_state" Stopped "[]" "start_cfg reset_state"] h g
    by simp
qed

subsection \<open>Termination\<close>

lemma doloop_returns_only_for_zero: "doloop l s = Some t \<Longrightarrow> l = 0"
  by (rule doloop.raw_induct [where P = "\<lambda>l s t. l = 0" and loop = l and s = s and y = t])
     (auto split: if_splits)

lemma loop_lstep: "loop (lstep c) = loop c"
  by (cases "pc c") (simp_all add: lstep_def)

lemma loop_exec: "loop (exec es c) = loop c"
proof (induction es arbitrary: c)
  case Nil
  show ?case by simp
next
  case (Cons e es)
  have "loop (step e c) = loop c"
    by (cases e) (simp_all add: step_def loop_lstep)
  with Cons.IH [of "step e c"] show ?case by simp
qed

lemma running_lstep: "running c \<Longrightarrow> running (lstep c)"
  by (cases "pc c") (simp_all add: running_def lstep_def)

lemma running_exec: "running c \<Longrightarrow> running (exec es c)"
proof (induction es arbitrary: c)
  case Nil
  then show ?case by simp
next
  case (Cons e es)
  have "running (step e c)"
    using Cons.prems by (cases e) (simp_all add: step_def running_lstep, simp add: running_def)
  with Cons.IH show ?case by simp
qed

text \<open>
  Claim C7. \<open>doloop\<close> called with zero returns at once, with the state it was given:
  it performs no iteration. Called with any other argument, as \<open>main\<close> calls it with
  1, it does not return, and neither does \<open>main\<close>. The reason is that no statement
  of the loop assigns \<open>loop\<close>: in every run of the interleaved machine \<open>loop\<close> keeps
  its value, and a loop that is running never reaches the end of the function.
\<close>

theorem continuation:
  "doloop 0 s = Some s
   \<and> (l \<noteq> 0 \<longrightarrow> doloop l s = None)
   \<and> main s = None
   \<and> loop (exec es c) = loop c
   \<and> (running c \<longrightarrow> running (exec es c))"
proof -
  have a: "doloop 0 s = Some s"
    by (subst doloop.simps) simp
  have b: "doloop k t = None" if "k \<noteq> 0" for k t
    using doloop_returns_only_for_zero [of k t] that by (cases "doloop k t") auto
  show ?thesis
    using a b by (simp add: main_def loop_exec running_exec)
qed

theorem continuation_witness:
  "doloop 0 reset_state = Some reset_state
   \<and> doloop 1 reset_state = None
   \<and> main reset_state = None
   \<and> running (start_cfg reset_state)
   \<and> running (exec [Step, Overflow, Step, Step, Step] (start_cfg reset_state))"
proof -
  have r: "running (start_cfg reset_state)"
    by (simp add: running_def start_cfg_def)
  show ?thesis
    using continuation [of reset_state 1 "[Step, Overflow, Step, Step, Step]" "start_cfg reset_state"] r
    by simp
qed

subsection \<open>The buffer\<close>

lemma strcmp_abc_iff:
  "strcmp lit_abc b = Some 0 \<longleftrightarrow> (\<exists>r. b = 0x61 # 0x62 # 0x63 # 0 # r)"
proof (cases b)
  case Nil
  then show ?thesis by (simp add: lit_abc_def)
next
  case b1: (Cons x1 r1)
  show ?thesis
  proof (cases r1)
    case Nil
    with b1 show ?thesis by (simp add: lit_abc_def)
  next
    case b2: (Cons x2 r2)
    show ?thesis
    proof (cases r2)
      case Nil
      with b1 b2 show ?thesis by (simp add: lit_abc_def)
    next
      case b3: (Cons x3 r3)
      show ?thesis
      proof (cases r3)
        case Nil
        with b1 b2 b3 show ?thesis by (simp add: lit_abc_def)
      next
        case (Cons x4 r4)
        with b1 b2 b3 show ?thesis by (auto simp add: lit_abc_def)
      qed
    qed
  qed
qed

lemma strcmp_abc_take: "strcmp lit_abc b = Some 0 \<longleftrightarrow> take 4 b = lit_abc"
proof
  assume "strcmp lit_abc b = Some 0"
  then obtain r where "b = 0x61 # 0x62 # 0x63 # 0 # r"
    using strcmp_abc_iff by blast
  then show "take 4 b = lit_abc"
    by (simp add: lit_abc_def)
next
  assume t: "take 4 b = lit_abc"
  then have "length (take 4 b) = 4"
    by (simp add: lit_abc_def)
  then have "4 \<le> length b"
    by simp
  then have "b = take 4 b @ drop 4 b"
    by simp
  with t have "b = 0x61 # 0x62 # 0x63 # 0 # drop 4 b"
    by (simp add: lit_abc_def)
  then show "strcmp lit_abc b = Some 0"
    using strcmp_abc_iff by blast
qed

lemma strcmp_abc_rewritten:
  "strcmp lit_abc (b[3 := 0x64, 4 := 0x65, 5 := 0x66]) \<noteq> Some 0"
proof
  assume "strcmp lit_abc (b[3 := 0x64, 4 := 0x65, 5 := 0x66]) = Some 0"
  then obtain r where r: "b[3 := 0x64, 4 := 0x65, 5 := 0x66] = 0x61 # 0x62 # 0x63 # 0 # r"
    using strcmp_abc_iff by blast
  then have "length b = Suc (Suc (Suc (Suc (length r))))"
    by (metis length_Cons length_list_update)
  then have "3 < length b" by simp
  then have "(b[3 := 0x64, 4 := 0x65, 5 := 0x66]) ! 3 = 0x64"
    by simp
  with r show False by simp
qed

lemma buffer_doloop_body:
  "buffer (doloop_body s) =
     (if strcmp lit_abc (buffer s) = Some 0 then (buffer s)[3 := 0x64, 4 := 0x65, 5 := 0x66]
      else buffer s)"
  by (cases "Timeout (Flags s)")
     (simp_all add: body_set body_clear Let_def set_State_def buffer_rewrite_buffer stores)

lemma nomatch_doloop_body: "strcmp lit_abc (buffer (doloop_body s)) \<noteq> Some 0"
  by (simp add: buffer_doloop_body strcmp_abc_rewritten)

lemma buffer_iterate:
  "buffer ((doloop_body ^^ Suc n) s) = buffer (doloop_body s)"
proof (induction n)
  case 0
  show ?case by simp
next
  case (Suc n)
  have "strcmp lit_abc (buffer ((doloop_body ^^ Suc n) s)) \<noteq> Some 0"
    by (simp add: nomatch_doloop_body)
  then have "buffer (doloop_body ((doloop_body ^^ Suc n) s)) = buffer ((doloop_body ^^ Suc n) s)"
    by (simp only: buffer_doloop_body if_False)
  with Suc.IH show ?case by simp
qed

lemma buffer_lstep:
  "buffer (mach (lstep c)) =
     (if pc c = L122 then (buffer (mach c))[3 := 0x64, 4 := 0x65, 5 := 0x66] else buffer (mach c))"
  by (cases "pc c") (simp_all add: lstep_def stores strncpy_def_3)

lemma buffer_step_changes:
  "buffer (mach (step e c)) \<noteq> buffer (mach c) \<Longrightarrow> e = Step \<and> pc c = L122"
  by (cases e) (auto simp: step_def buffer_lstep buffer_overflow_event split: if_splits)

lemma pc_lstep_L122:
  "pc (lstep c) = L122 \<longleftrightarrow> pc c = L120 \<and> strcmp lit_abc (buffer (mach c)) = Some 0"
  by (cases "pc c") (simp_all add: lstep_def)

lemma strncpy_runs_nomatch:
  "strcmp lit_abc (buffer (mach c)) \<noteq> Some 0 \<Longrightarrow> pc c \<noteq> L122 \<Longrightarrow> strncpy_runs es c = 0"
proof (induction es arbitrary: c)
  case Nil
  show ?case by simp
next
  case (Cons e es)
  have "strcmp lit_abc (buffer (mach (step e c))) \<noteq> Some 0 \<and> pc (step e c) \<noteq> L122"
    using Cons.prems
    by (cases e) (simp_all add: step_def buffer_lstep buffer_overflow_event pc_lstep_L122)
  then have "strncpy_runs es (step e c) = 0"
    using Cons.IH by blast
  with Cons.prems show ?case by simp
qed

lemma strncpy_runs_at_L122: "pc c = L122 \<Longrightarrow> strncpy_runs es c \<le> 1"
proof (induction es arbitrary: c)
  case Nil
  show ?case by simp
next
  case (Cons e es)
  show ?case
  proof (cases e)
    case Step
    have "strcmp lit_abc (buffer (mach (step e c))) \<noteq> Some 0 \<and> pc (step e c) \<noteq> L122"
      using Cons.prems Step
      by (simp add: step_def buffer_lstep strcmp_abc_rewritten pc_lstep_L122)
    then have "strncpy_runs es (step e c) = 0"
      using strncpy_runs_nomatch by blast
    then show ?thesis by simp
  next
    case Overflow
    then have "pc (step e c) = L122"
      using Cons.prems by (simp add: step_def)
    then have "strncpy_runs es (step e c) \<le> 1"
      using Cons.IH by blast
    with Overflow show ?thesis by simp
  qed
qed

lemma strncpy_runs_le_1: "strncpy_runs es c \<le> 1"
proof (induction es arbitrary: c)
  case Nil
  show ?case by simp
next
  case (Cons e es)
  show ?case
  proof (cases "pc c = L122")
    case True
    then show ?thesis by (rule strncpy_runs_at_L122)
  next
    case False
    then show ?thesis using Cons.IH [of "step e c"] by simp
  qed
qed

text \<open>
  Claim C10. In an iteration of the loop, when the 16-byte buffer starts with the bytes
  of "abc" and a NUL, which is when \<open>strcmp\<close> returns zero, the bytes at offsets 3, 4
  and 5 become 'd', 'e' and 'f' and no other byte changes; otherwise the buffer is
  unchanged. After an iteration the buffer never compares equal to "abc", so every
  later iteration leaves it as the first one left it. In a run of the interleaved
  machine only line 122 changes the buffer, and line 122 is executed at most once.
\<close>

theorem buffer_rewritten_once:
  assumes "length (buffer s) = 16"
  shows "buffer (doloop_body s) =
           (if take 4 (buffer s) = lit_abc then (buffer s)[3 := 0x64, 4 := 0x65, 5 := 0x66]
            else buffer s)
       \<and> length (buffer (doloop_body s)) = 16
       \<and> (\<forall>i. i \<noteq> 3 \<and> i \<noteq> 4 \<and> i \<noteq> 5 \<longrightarrow> buffer (doloop_body s) ! i = buffer s ! i)
       \<and> (strcmp lit_abc (buffer s) = Some 0) = (take 4 (buffer s) = lit_abc)
       \<and> strcmp lit_abc (buffer (doloop_body s)) \<noteq> Some 0
       \<and> (\<forall>n. buffer ((doloop_body ^^ Suc n) s) = buffer (doloop_body s))
       \<and> (buffer (mach (step e c)) \<noteq> buffer (mach c) \<longrightarrow> e = Step \<and> pc c = L122)
       \<and> strncpy_runs es c \<le> 1"
proof -
  have 1: "buffer (doloop_body s) =
           (if take 4 (buffer s) = lit_abc then (buffer s)[3 := 0x64, 4 := 0x65, 5 := 0x66]
            else buffer s)"
    by (simp only: buffer_doloop_body strcmp_abc_take)
  have 2: "length (buffer (doloop_body s)) = 16"
    using assms by (simp add: buffer_doloop_body)
  have 3: "\<forall>i. i \<noteq> 3 \<and> i \<noteq> 4 \<and> i \<noteq> 5 \<longrightarrow> buffer (doloop_body s) ! i = buffer s ! i"
    by (simp add: buffer_doloop_body)
  have 4: "(strcmp lit_abc (buffer s) = Some 0) = (take 4 (buffer s) = lit_abc)"
    by (rule strcmp_abc_take)
  have 5: "strcmp lit_abc (buffer (doloop_body s)) \<noteq> Some 0"
    by (rule nomatch_doloop_body)
  have 6: "\<forall>n. buffer ((doloop_body ^^ Suc n) s) = buffer (doloop_body s)"
    using buffer_iterate by blast
  have 7: "buffer (mach (step e c)) \<noteq> buffer (mach c) \<longrightarrow> e = Step \<and> pc c = L122"
    using buffer_step_changes by blast
  have 8: "strncpy_runs es c \<le> 1"
    by (rule strncpy_runs_le_1)
  from 1 2 3 4 5 6 7 8 show ?thesis
    by (intro conjI)
qed

theorem buffer_rewritten_once_witness:
  "length (buffer (reset_state\<lparr>buffer := lit_abc @ replicate 12 0\<rparr>)) = 16
   \<and> buffer (doloop_body (reset_state\<lparr>buffer := lit_abc @ replicate 12 0\<rparr>)) =
       [0x61, 0x62, 0x63, 0x64, 0x65, 0x66] @ replicate 10 0
   \<and> buffer ((doloop_body ^^ Suc 2) (reset_state\<lparr>buffer := lit_abc @ replicate 12 0\<rparr>)) =
       [0x61, 0x62, 0x63, 0x64, 0x65, 0x66] @ replicate 10 0
   \<and> strncpy_runs (replicate 20 Step)
        (start_cfg (reset_state\<lparr>buffer := lit_abc @ replicate 12 0\<rparr>)) \<le> 1"
proof -
  let ?s = "reset_state\<lparr>buffer := lit_abc @ replicate 12 0\<rparr>"
  have h: "length (buffer ?s) = 16"
    by (simp add: lit_abc_def)
  have t: "take 4 (buffer ?s) = lit_abc"
    by (simp add: lit_abc_def)
  have u: "(buffer ?s)[3 := 0x64, 4 := 0x65, 5 := 0x66] =
      [0x61, 0x62, 0x63, 0x64, 0x65, 0x66] @ replicate 10 0"
    by (simp add: lit_abc_def replicate_num)
  note th = buffer_rewritten_once [OF h, of Step "start_cfg ?s" "replicate 20 Step"]
  have a: "buffer (doloop_body ?s) = [0x61, 0x62, 0x63, 0x64, 0x65, 0x66] @ replicate 10 0"
    using th t u by (simp only: simp_thms if_True)
  have "\<forall>n. buffer ((doloop_body ^^ Suc n) ?s) = buffer (doloop_body ?s)"
    using th by blast
  then have b: "buffer ((doloop_body ^^ Suc 2) ?s) = buffer (doloop_body ?s)"
    by blast
  have c: "strncpy_runs (replicate 20 Step) (start_cfg ?s) \<le> 1"
    using th by blast
  show ?thesis
    using h a b c by (simp only: simp_thms)
qed

subsection \<open>The statement machine\<close>

text \<open>
  Run without an interrupt from the first statement of the body, the statement machine
  is back at the test of the \<open>while\<close> after at most eight statements, in the state
  \<open>doloop_body\<close> computes.
\<close>

lemma exec_iteration:
  assumes "pc c = L111"
  shows "\<exists>n \<le> 8. exec (replicate n Step) c =
           c\<lparr>pc := L109, flg := getFlags (mach c), mach := doloop_body (mach c)\<rparr>"
proof -
  let ?n = "(if Timeout (Flags (mach c)) then 7 else 5)
            + (if strcmp lit_abc (buffer (mach c)) = Some 0 then 1 else 0 :: nat)"
  have "exec (replicate ?n Step) c =
           c\<lparr>pc := L109, flg := getFlags (mach c), mach := doloop_body (mach c)\<rparr>"
    using assms
    by (simp add: replicate_num step_def lstep_def getFlags_def body_set body_clear
        rewrite_buffer_def stores strncpy_def_3 LATB0_def)
  moreover have "?n \<le> 8"
    by simp
  ultimately show ?thesis
    by blast
qed

lemma trace_lstep:
  "trace (mach (lstep c)) = trace (mach c) @
     (case pc c of
        L114 \<Rightarrow> [Wr_state Running]
      | L115 \<Rightarrow> [Wr_Flags_Timeout False]
      | L116 \<Rightarrow> [Wr_LATB7 (LATB0 (mach c))]
      | L119 \<Rightarrow> [Wr_state Stopped]
      | L122 \<Rightarrow> [Wr_buffer 3 0x64, Wr_buffer 4 0x65, Wr_buffer 5 0x66]
      | L124 \<Rightarrow> [Wr_State (state (mach c))]
      | _ \<Rightarrow> [])"
  by (cases "pc c") (simp_all add: lstep_def stores strncpy_def_3)

lemma new_stores_Step:
  "new_stores Step c =
     (case pc c of
        L114 \<Rightarrow> [Wr_state Running]
      | L115 \<Rightarrow> [Wr_Flags_Timeout False]
      | L116 \<Rightarrow> [Wr_LATB7 (LATB0 (mach c))]
      | L119 \<Rightarrow> [Wr_state Stopped]
      | L122 \<Rightarrow> [Wr_buffer 3 0x64, Wr_buffer 4 0x65, Wr_buffer 5 0x66]
      | L124 \<Rightarrow> [Wr_State (state (mach c))]
      | _ \<Rightarrow> [])"
  by (simp add: new_stores_def step_def trace_lstep)

lemma new_stores_Overflow:
  "new_stores Overflow c = [Wr_TMR0IF False, Wr_Flags_Timeout True, Wr_LATB0 (\<not> LATB0 (mach c))]"
  by (simp add: new_stores_def step_def overflow_event_eq)

lemma Flags_lstep:
  "Flags (mach (lstep c)) =
     (if pc c = L115 then unset_bit Timeout_bit (Flags (mach c)) else Flags (mach c))"
  by (cases "pc c") (simp_all add: lstep_def stores strncpy_def_3 bf_write_def)

lemma Timeout_unset: "\<not> Timeout (unset_bit Timeout_bit w)"
  by (simp add: Timeout_def bit_unset_bit_iff)

lemma flag_rises: "Timeout (Flags (mach (step e c))) \<Longrightarrow> \<not> Timeout (Flags (mach c)) \<Longrightarrow> e = Overflow"
  by (cases e) (auto simp: step_def Flags_lstep Timeout_unset split: if_splits)

lemma flag_falls:
  "\<not> Timeout (Flags (mach (step e c))) \<Longrightarrow> Timeout (Flags (mach c)) \<Longrightarrow> e = Step \<and> pc c = L115"
  by (cases e) (auto simp: step_def Flags_lstep Timeout_overflow_event split: if_splits)

lemma stores_to_flag:
  "w \<in> set (new_stores e c) \<Longrightarrow>
     (w = Wr_Flags_Timeout True \<longrightarrow> e = Overflow)
     \<and> (w = Wr_Flags_Timeout False \<longrightarrow> e = Step \<and> pc c = L115)
     \<and> (\<forall>v. w \<noteq> Wr_Flags_Byte v)"
  by (cases e; cases "pc c") (auto simp: new_stores_Step new_stores_Overflow)

lemma main_setup_trace:
  "trace (main_setup s) = trace s @
     [Wr_Flags_Byte 0, Wr_INTCON 0x20, Wr_INTCON2 0x84, Wr_IPEN True, Wr_TMR0H 0, Wr_TMR0L 0,
      Wr_T0CON 0x82, Wr_GIEH True, Wr_TRISB 0]"
  by (simp add: main_setup_def Let_def)

lemma main_setup_Flags: "Flags (main_setup s) = 0"
  by (simp add: main_setup_def Let_def)

text \<open>
  Claim C8. In every configuration, and so in every one reached after the set-up of
  \<open>main\<close>: a store of 1 to the Timeout flag is made by the interrupt routine only, a
  store of 0 by the loop only, at line 115, and neither makes a store to the whole flag
  byte. Accordingly the flag goes from clear to set only in an overflow event and from
  set to clear only in the loop's statement of line 115. The interrupt routine does
  make the store of 1 and line 115 the store of 0. The one other store to the flag
  byte is \<open>Flags.Byte = 0\<close>, the first store of the set-up.
\<close>

theorem write_discipline:
  "(\<forall>w \<in> set (new_stores e c).
       (w = Wr_Flags_Timeout True \<longrightarrow> e = Overflow)
     \<and> (w = Wr_Flags_Timeout False \<longrightarrow> e = Step \<and> pc c = L115)
     \<and> (\<forall>v. w \<noteq> Wr_Flags_Byte v))
   \<and> (Timeout (Flags (mach (step e c))) \<and> \<not> Timeout (Flags (mach c)) \<longrightarrow> e = Overflow)
   \<and> (\<not> Timeout (Flags (mach (step e c))) \<and> Timeout (Flags (mach c)) \<longrightarrow> e = Step \<and> pc c = L115)
   \<and> Wr_Flags_Timeout True \<in> set (new_stores Overflow c)
   \<and> (pc c = L115 \<longrightarrow> new_stores Step c = [Wr_Flags_Timeout False])
   \<and> Flags (main_setup s) = 0
   \<and> trace (main_setup s) = trace s @
       [Wr_Flags_Byte 0, Wr_INTCON 0x20, Wr_INTCON2 0x84, Wr_IPEN True, Wr_TMR0H 0, Wr_TMR0L 0,
        Wr_T0CON 0x82, Wr_GIEH True, Wr_TRISB 0]"
proof -
  have 1: "\<forall>w \<in> set (new_stores e c).
       (w = Wr_Flags_Timeout True \<longrightarrow> e = Overflow)
     \<and> (w = Wr_Flags_Timeout False \<longrightarrow> e = Step \<and> pc c = L115)
     \<and> (\<forall>v. w \<noteq> Wr_Flags_Byte v)"
    using stores_to_flag by blast
  have 2: "Timeout (Flags (mach (step e c))) \<and> \<not> Timeout (Flags (mach c)) \<longrightarrow> e = Overflow"
    using flag_rises by blast
  have 3: "\<not> Timeout (Flags (mach (step e c))) \<and> Timeout (Flags (mach c)) \<longrightarrow> e = Step \<and> pc c = L115"
    using flag_falls by blast
  have 4: "Wr_Flags_Timeout True \<in> set (new_stores Overflow c)"
    by (simp add: new_stores_Overflow)
  have 5: "pc c = L115 \<longrightarrow> new_stores Step c = [Wr_Flags_Timeout False]"
    by (simp add: new_stores_Step)
  from 1 2 3 4 5 main_setup_Flags main_setup_trace show ?thesis
    by (intro conjI)
qed

theorem write_discipline_witness:
  "Wr_Flags_Timeout True \<in> set (new_stores Overflow (start_cfg reset_state))
   \<and> Timeout (Flags (mach (step Overflow (start_cfg reset_state))))
   \<and> \<not> Timeout (Flags (mach (start_cfg reset_state)))
   \<and> pc (exec [Step, Overflow, Step, Step, Step] (start_cfg reset_state)) = L115
   \<and> new_stores Step (exec [Step, Overflow, Step, Step, Step] (start_cfg reset_state)) =
       [Wr_Flags_Timeout False]
   \<and> Timeout (Flags (mach (exec [Step, Overflow, Step, Step, Step] (start_cfg reset_state))))
   \<and> \<not> Timeout (Flags (mach (step Step
         (exec [Step, Overflow, Step, Step, Step] (start_cfg reset_state)))))"
proof -
  let ?c = "exec [Step, Overflow, Step, Step, Step] (start_cfg reset_state)"
  have a: "\<not> Timeout (Flags (mach (start_cfg reset_state)))"
    by code_simp
  have b: "pc ?c = L115"
    by code_simp
  have c: "Timeout (Flags (mach ?c))"
    by code_simp
  have d: "Timeout (Flags (mach (step Overflow (start_cfg reset_state))))"
    by code_simp
  have e: "\<not> Timeout (Flags (mach (step Step ?c)))"
    by code_simp
  show ?thesis
    using write_discipline [of Overflow "start_cfg reset_state" reset_state]
      write_discipline [of Step ?c reset_state] a b c d e
    by simp
qed

subsection \<open>The mirror and the interrupt\<close>
















subsection \<open>The signal from the interrupt routine to the loop\<close>

lemma pending_lstep:
  "(if observes Step c then 1 else 0) + (if pending (lstep c) then 1 else 0) =
     (if pending c then (1::nat) else 0)"
  by (cases "pc c")
     (simp_all add: lstep_def pending_def observes_def getFlags_def stores strncpy_def_3
       Timeout_def bit_bf_write bitpos)

lemma pending_overflow:
  "(if pending (step Overflow c) then 1 else 0) =
     (if pending c then (1::nat) else 0) + (if raises Overflow c then 1 else 0)"
  by (simp add: step_def pending_def raises_def Timeout_overflow_event)

lemma not_observes_Overflow: "\<not> observes Overflow c"
  by (simp add: observes_def)

lemma not_raises_Step: "\<not> raises Step c"
  by (simp add: raises_def)

lemma pending_step:
  "(if observes e c then 1 else 0) + (if pending (step e c) then 1 else 0) =
     (if pending c then (1::nat) else 0) + (if raises e c then 1 else 0)"
proof (cases e)
  case Step
  then show ?thesis
    using pending_lstep [of c] by (simp add: not_raises_Step step_def)
next
  case Overflow
  then show ?thesis
    using pending_overflow [of c] by (simp add: not_observes_Overflow)
qed

lemma accounting:
  "observed es c + (if pending (exec es c) then 1 else 0) =
     (if pending c then 1 else 0) + effective es c"
proof (induction es arbitrary: c)
  case Nil
  show ?case by simp
next
  case (Cons e es)
  have "observed (e # es) c + (if pending (exec (e # es) c) then 1 else 0) =
      (if observes e c then 1 else 0)
        + (observed es (step e c) + (if pending (exec es (step e c)) then 1 else 0))"
    by simp
  also have "\<dots> = (if observes e c then 1 else 0)
        + ((if pending (step e c) then 1 else 0) + effective es (step e c))"
    by (simp only: Cons.IH)
  also have "\<dots> = ((if pending c then 1 else 0) + (if raises e c then 1 else 0))
        + effective es (step e c)"
    using pending_step [of e c] by linarith
  also have "\<dots> = (if pending c then 1 else 0) + effective (e # es) c"
    by simp
  finally show ?case .
qed

lemma effective_le_overflows: "effective es c \<le> overflows es"
proof (induction es arbitrary: c)
  case Nil
  show ?case by (simp add: overflows_def)
next
  case (Cons e es)
  have "effective es (step e c) \<le> overflows es"
    by (rule Cons.IH)
  then show ?case
    by (cases e) (simp_all add: overflows_def raises_def)
qed

lemma dist_pos: "pending c \<Longrightarrow> running c \<Longrightarrow> 0 < dist c"
  by (cases "pc c") (simp_all add: dist_def pending_def running_def)

lemma dist_le_8: "dist c \<le> 8"
  by (cases "pc c") (simp_all add: dist_def)

lemma dist_lstep:
  "pending c \<Longrightarrow> running c \<Longrightarrow> \<not> observes Step c \<Longrightarrow> dist (lstep c) < dist c"
  by (cases "pc c")
     (simp_all add: dist_def pending_def running_def observes_def lstep_def getFlags_def)

lemma dist_overflow: "dist (step Overflow c) = dist c"
  by (simp add: step_def dist_def)

lemma pending_kept:
  "pending c \<Longrightarrow> \<not> observes e c \<Longrightarrow> pending (step e c)"
  using pending_step [of e c] by (simp split: if_splits)

lemma running_step: "running c \<Longrightarrow> running (step e c)"
  using running_exec [of c "[e]"] by simp

lemma steps_Cons: "steps (e # es) = (if e = Step then 1 else 0) + steps es"
  by (simp add: steps_def)

lemma eventually_observed:
  "pending c \<Longrightarrow> running c \<Longrightarrow> dist c \<le> steps es \<Longrightarrow> 1 \<le> observed es c"
proof (induction es arbitrary: c)
  case Nil
  then show ?case
    using dist_pos [of c] by (simp add: steps_def)
next
  case (Cons e es)
  show ?case
  proof (cases "observes e c")
    case True
    then show ?thesis by simp
  next
    case False
    have p: "pending (step e c)"
      using Cons.prems(1) False by (rule pending_kept)
    have r: "running (step e c)"
      using Cons.prems(2) by (rule running_step)
    have d: "dist (step e c) \<le> steps es"
    proof (cases e)
      case Step
      then have "dist (step e c) < dist c"
        using dist_lstep [of c] Cons.prems False by (simp add: step_def)
      with Cons.prems(3) Step show ?thesis
        by (simp add: steps_Cons)
    next
      case Overflow
      with Cons.prems(3) show ?thesis
        by (simp add: steps_Cons dist_overflow)
    qed
    have "1 \<le> observed es (step e c)"
      using p r d by (rule Cons.IH)
    then show ?thesis by simp
  qed
qed

text \<open>
  The statement of claim C1 fails on the run \<open>lost_run\<close> from the state after the
  set-up. After its third event the loop stands before the test of line 112 with a set
  copy of the flag in \<open>flg\<close>; the fourth event is the second overflow, raised before
  the clear of line 115, which the seventh event executes. The run has two overflow
  events, the loop observes the flag set once, and at the end of the run the loop is at
  the head of the \<open>while\<close> with the flag clear, a full iteration after the
  observation: the second set has been dropped.
\<close>

theorem lost_signal:
  "overflows lost_run = 2
   \<and> pc (exec (take 3 lost_run) (start_cfg reset_state)) = L112
   \<and> Timeout (flg (exec (take 3 lost_run) (start_cfg reset_state)))
   \<and> pc (exec (take 4 lost_run) (start_cfg reset_state)) = L112
   \<and> Timeout (Flags (mach (exec (take 4 lost_run) (start_cfg reset_state))))
   \<and> pc (exec (take 7 lost_run) (start_cfg reset_state)) = L116
   \<and> \<not> Timeout (Flags (mach (exec (take 7 lost_run) (start_cfg reset_state))))
   \<and> observed lost_run (start_cfg reset_state) = 1
   \<and> pc (exec lost_run (start_cfg reset_state)) = L109
   \<and> \<not> Timeout (Flags (mach (exec lost_run (start_cfg reset_state))))"
  by code_simp

text \<open>
  Claim C1, amended. The interrupt may arrive between any two statements of the loop.
  Call an overflow event effective when, as it fires, no earlier set of the flag is
  waiting to be observed and the loop is not between a successful test of line 112 and
  the clear of line 115. In every run the number of observations of a set flag, plus
  one if a set is waiting at the end, is the number of effective overflow events, plus
  one if a set was waiting at the start; the number of effective events is at most the
  number of overflow events. So each effective overflow event is observed exactly once,
  while an event that fires when a set is already waiting is merged with it and one
  that fires between the test and the clear is erased by the clear. A waiting set is
  observed as soon as the running loop has executed eight more statements. After the
  set-up of \<open>main\<close> nothing is waiting and the loop is running.
\<close>

theorem signal_accounting:
  "observed es c + (if pending (exec es c) then 1 else 0) =
     (if pending c then 1 else 0) + effective es c
   \<and> effective es c \<le> overflows es
   \<and> (pending c \<and> running c \<and> 8 \<le> steps es \<longrightarrow> 1 \<le> observed es c)
   \<and> \<not> pending (start_cfg s) \<and> running (start_cfg s)
   \<and> observed es (start_cfg s) \<le> overflows es"
proof -
  have 4: "\<not> pending (start_cfg s)"
    by (simp add: pending_def start_cfg_def main_setup_def Let_def Timeout_def)
  have "observed es (start_cfg s) \<le> effective es (start_cfg s)"
    using accounting [of es "start_cfg s"] 4 by simp
  then have 6: "observed es (start_cfg s) \<le> overflows es"
    using effective_le_overflows [of es "start_cfg s"] by simp
  have 3: "pending c \<and> running c \<and> 8 \<le> steps es \<longrightarrow> 1 \<le> observed es c"
    using eventually_observed [of c es] dist_le_8 [of c] by auto
  have 5: "running (start_cfg s)"
    by (simp add: running_def start_cfg_def)
  from accounting effective_le_overflows 3 4 5 6 show ?thesis
    by (intro conjI)
qed

theorem signal_accounting_witness:
  "pending (step Overflow (start_cfg reset_state))
   \<and> running (step Overflow (start_cfg reset_state))
   \<and> 8 \<le> steps (replicate 8 Step)
   \<and> 1 \<le> observed (replicate 8 Step) (step Overflow (start_cfg reset_state))
   \<and> effective lost_run (start_cfg reset_state) \<le> overflows lost_run
   \<and> observed lost_run (start_cfg reset_state)
       + (if pending (exec lost_run (start_cfg reset_state)) then 1 else 0) =
      (if pending (start_cfg reset_state) then 1 else 0)
       + effective lost_run (start_cfg reset_state)"
proof -
  let ?c = "step Overflow (start_cfg reset_state)"
  have a: "pending ?c"
    by code_simp
  have b: "running ?c"
    by code_simp
  have c: "8 \<le> steps (replicate 8 Step)"
    by code_simp
  show ?thesis
    using signal_accounting [of "replicate 8 Step" ?c reset_state]
      signal_accounting [of lost_run "start_cfg reset_state" reset_state] a b c
    by simp
qed

end
